theory Spec2Isabelle
  imports Complex_Main "HOL-Library.AList"
begin

section \<open>express-api-throttle: the window counter stores and the throttle middleware\<close>

text \<open>
  The development follows the rate limiter of the package express-api-throttle: the class
  \<open>MemoryStore\<close>, the class \<open>RedisStore\<close> and the middleware factory \<open>throttle\<close>.
  Times are milliseconds since the epoch, as \<open>Date.now()\<close> returns them, and are integers;
  every reading of the clock is an explicit argument of the function that reads it.
\<close>

subsection \<open>Records and objects\<close>

text \<open>The object \<open>{ hits, resetTime }\<close> that both stores keep per key.\<close>

record hit_record =
  hits :: int
  resetTime :: int

text \<open>
  \<open>MemoryStore\<close> keeps object references in its \<open>Map\<close> and hands the same references
  to its callers, so objects live in a heap: a reference is an index into the list of
  allocated objects, \<open>new_object\<close> appends, a field assignment updates the cell.
\<close>

type_synonym ref = nat

type_synonym heap = "hit_record list"

definition new_object :: "hit_record \<Rightarrow> heap \<Rightarrow> ref \<times> heap" where
  "new_object r h = (length h, h @ [r])"

text \<open>
  A JavaScript \<open>Map\<close> with string keys: the entries in insertion order. \<open>set\<close> replaces the
  value of a present key in place and appends an absent one; \<open>delete\<close> removes the entry.
\<close>

type_synonym 'v js_map = "(string \<times> 'v) list"

definition Map_has :: "'v js_map \<Rightarrow> string \<Rightarrow> bool" where
  "Map_has m key = (map_of m key \<noteq> None)"

definition Map_get :: "'v js_map \<Rightarrow> string \<Rightarrow> 'v option" where
  "Map_get m key = map_of m key"

definition Map_set :: "string \<Rightarrow> 'v \<Rightarrow> 'v js_map \<Rightarrow> 'v js_map" where
  "Map_set key v m = AList.update key v m"

definition Map_delete :: "string \<Rightarrow> 'v js_map \<Rightarrow> 'v js_map" where
  "Map_delete key m = AList.delete key m"

subsection \<open>MemoryStore\<close>

text \<open>\<open>this.store\<close> together with the objects it refers to.\<close>

record MemoryStore =
  store :: "ref js_map"
  heap :: heap

definition MemoryStore_new :: MemoryStore where
  "MemoryStore_new = \<lparr>store = [], heap = []\<rparr>"

text \<open>\<open>get(key)\<close>: \<open>null\<close> (here \<open>None\<close>) for an absent key, otherwise the stored reference.\<close>

definition MemoryStore_get :: "string \<Rightarrow> MemoryStore \<Rightarrow> ref option" where
  "MemoryStore_get key s =
     (if \<not> Map_has (store s) key then None else Map_get (store s) key)"

text \<open>
  \<open>increment(key, windowMs)\<close>, with \<open>now\<close> the value of \<open>Date.now()\<close> on entry. The body
  has no \<open>await\<close>, so it runs from entry to return without suspension. The branch \<open>None\<close>
  is \<open>!this.store.has(key)\<close>; the result is the reference held in the map.
\<close>

definition MemoryStore_increment ::
  "int \<Rightarrow> string \<Rightarrow> int \<Rightarrow> MemoryStore \<Rightarrow> ref \<times> MemoryStore" where
  "MemoryStore_increment now key windowMs s =
     (let resetTime' = now + windowMs in
      case Map_get (store s) key of
        None \<Rightarrow>
          (let (record, h) = new_object \<lparr>hits = 1, resetTime = resetTime'\<rparr> (heap s)
           in (record, s\<lparr>store := Map_set key record (store s), heap := h\<rparr>))
      | Some record \<Rightarrow>
          (if now > resetTime (heap s ! record)
           then (record, s\<lparr>heap := (heap s)
                   [record := (heap s ! record)\<lparr>hits := 1, resetTime := resetTime'\<rparr>]\<rparr>)
           else (record, s\<lparr>heap := (heap s)
                   [record := (heap s ! record)\<lparr>hits := hits (heap s ! record) + 1\<rparr>]\<rparr>)))"

text \<open>
  \<open>cleanup()\<close>, with \<open>now\<close> the value of \<open>Date.now()\<close> on entry: the loop visits the
  entries that the map had on entry (deleting the visited entry does not disturb the
  iteration) and deletes each key whose record has \<open>now > record.resetTime\<close>.
\<close>

fun cleanup_loop :: "int \<Rightarrow> heap \<Rightarrow> ref js_map \<Rightarrow> ref js_map \<Rightarrow> ref js_map" where
  "cleanup_loop now h [] m = m"
| "cleanup_loop now h ((key, record) # entries) m =
     cleanup_loop now h entries
       (if now > resetTime (h ! record) then Map_delete key m else m)"

definition MemoryStore_cleanup :: "int \<Rightarrow> MemoryStore \<Rightarrow> MemoryStore" where
  "MemoryStore_cleanup now s = s\<lparr>store := cleanup_loop now (heap s) (store s) (store s)\<rparr>"

text \<open>
  The state of a store built by its own methods: keys occur once, every stored reference
  points to an allocated object, and no object is stored under two keys.
\<close>

definition store_ok :: "MemoryStore \<Rightarrow> bool" where
  "store_ok s \<longleftrightarrow>
     distinct (map fst (store s)) \<and> distinct (map snd (store s)) \<and>
     (\<forall>a \<in> set (map snd (store s)). a < length (heap s))"

subsection \<open>RedisStore\<close>

text \<open>
  The Redis client is an external collaborator. It is represented by the state of the
  connection and of the keys it serves: \<open>GET\<close> replies with the stored value or \<open>null\<close>,
  \<open>SETEX\<close> stores a value with its time to live in seconds and refuses a time to live that
  is not positive, and every command fails on a closed connection. A failed command is the
  rejection of the promise that the client returned. The removal of a key whose time to
  live has run out is an action of the server and not of this program. A stored value is
  the text \<open>JSON.stringify(record)\<close>, read back by \<open>JSON.parse\<close>; on objects with the two
  integer fields the round trip is the identity, so the value is kept as the record.

  The values that are thrown: the two failures of the client, the \<open>TypeError\<close> of the
  runtime, and \<open>InvalidConfiguration\<close>, the error kind that the specification names for a
  refused configuration. No statement of the source throws the last one.
\<close>

datatype js_error = ConnectionError | ReplyError | TypeError | InvalidConfiguration

record redis_entry =
  payload :: hit_record
  ttl :: int

record redis_client =
  connected :: bool
  db :: "redis_entry js_map"

definition client_get :: "redis_client \<Rightarrow> string \<Rightarrow> js_error + hit_record option" where
  "client_get c k =
     (if \<not> connected c then Inl ConnectionError
      else Inr (map_option payload (map_of (db c) k)))"

definition client_setEx ::
  "redis_client \<Rightarrow> string \<Rightarrow> int \<Rightarrow> hit_record \<Rightarrow> js_error + redis_client" where
  "client_setEx c k seconds v =
     (if \<not> connected c then Inl ConnectionError
      else if seconds \<le> 0 then Inl ReplyError
      else Inr (c\<lparr>db := AList.update k \<lparr>payload = v, ttl = seconds\<rparr> (db c)\<rparr>))"

text \<open>\<open>Math.ceil(a / b)\<close> on integers, for a positive \<open>b\<close>.\<close>

definition Math_ceil_div :: "int \<Rightarrow> int \<Rightarrow> int" where
  "Math_ceil_div a b = - ((- a) div b)"

definition redisKey :: "string \<Rightarrow> string" where
  "redisKey key = ''throttle:'' @ key"

text \<open>
  The part of \<open>RedisStore.increment\<close> between its two \<open>await\<close>s: from the reply \<open>data\<close> of
  \<open>GET\<close> to the record that is written and returned.
\<close>

definition next_record :: "int \<Rightarrow> int \<Rightarrow> hit_record option \<Rightarrow> hit_record" where
  "next_record now windowMs data =
     (case data of
        None \<Rightarrow> \<lparr>hits = 1, resetTime = now + windowMs\<rparr>
      | Some record \<Rightarrow>
          (if now > resetTime record then \<lparr>hits = 1, resetTime = now + windowMs\<rparr>
           else record\<lparr>hits := hits record + 1\<rparr>))"

definition write_record ::
  "int \<Rightarrow> string \<Rightarrow> hit_record \<Rightarrow> redis_client \<Rightarrow> js_error + hit_record \<times> redis_client" where
  "write_record now key record c =
     (let ttl = Math_ceil_div (resetTime record - now) 1000 in
      case client_setEx c (redisKey key) ttl record of
        Inl err \<Rightarrow> Inl err
      | Inr c' \<Rightarrow> Inr (record, c'))"

text \<open>
  \<open>increment(key, windowMs)\<close> when nothing else runs between its \<open>await\<close>s; \<open>now\<close> is the
  value of \<open>Date.now()\<close> on entry.
\<close>

definition RedisStore_increment ::
  "int \<Rightarrow> string \<Rightarrow> int \<Rightarrow> redis_client \<Rightarrow> js_error + hit_record \<times> redis_client" where
  "RedisStore_increment now key windowMs c =
     (case client_get c (redisKey key) of
        Inl err \<Rightarrow> Inl err
      | Inr data \<Rightarrow> write_record now key (next_record now windowMs data) c)"

definition RedisStore_get :: "string \<Rightarrow> redis_client \<Rightarrow> js_error + hit_record option" where
  "RedisStore_get key c = client_get c (redisKey key)"

text \<open>
  Calls of \<open>increment\<close> in flight together. A call is suspended at each \<open>await\<close>, where
  other calls may run: first it reads the clock and sends \<open>GET\<close>, later it resumes with the
  reply, builds the record and sends \<open>SETEX\<close>. A schedule names, step by step, the call
  that runs next and the clock reading it sees on entry.
\<close>

datatype redis_call =
    Called string int
  | AwaitingGet int string int "hit_record option"
  | Returned hit_record
  | Failed js_error

fun redis_step :: "int \<Rightarrow> redis_call \<Rightarrow> redis_client \<Rightarrow> redis_call \<times> redis_client" where
  "redis_step clock (Called key windowMs) c =
     (case client_get c (redisKey key) of
        Inl err \<Rightarrow> (Failed err, c)
      | Inr data \<Rightarrow> (AwaitingGet clock key windowMs data, c))"
| "redis_step clock (AwaitingGet now key windowMs data) c =
     (case write_record now key (next_record now windowMs data) c of
        Inl err \<Rightarrow> (Failed err, c)
      | Inr (record, c') \<Rightarrow> (Returned record, c'))"
| "redis_step clock call c = (call, c)"

fun run_schedule ::
  "(nat \<times> int) list \<Rightarrow> redis_call list \<times> redis_client \<Rightarrow> redis_call list \<times> redis_client" where
  "run_schedule [] sys = sys"
| "run_schedule ((i, clock) # sched) (calls, c) =
     (if i < length calls
      then (let (call', c') = redis_step clock (calls ! i) c
            in run_schedule sched (calls[i := call'], c'))
      else run_schedule sched (calls, c))"

text \<open>Calls made one after the other, on either store, at the given clock readings.\<close>

fun MemoryStore_increments :: "int list \<Rightarrow> string \<Rightarrow> int \<Rightarrow> MemoryStore \<Rightarrow> MemoryStore" where
  "MemoryStore_increments [] key windowMs s = s"
| "MemoryStore_increments (now # nows) key windowMs s =
     MemoryStore_increments nows key windowMs (snd (MemoryStore_increment now key windowMs s))"

fun RedisStore_increments ::
  "int list \<Rightarrow> string \<Rightarrow> int \<Rightarrow> redis_client \<Rightarrow> js_error + redis_client" where
  "RedisStore_increments [] key windowMs c = Inr c"
| "RedisStore_increments (now # nows) key windowMs c =
     (case RedisStore_increment now key windowMs c of
        Inl err \<Rightarrow> Inl err
      | Inr (record, c') \<Rightarrow> RedisStore_increments nows key windowMs c')"

subsection \<open>The middleware factory\<close>

text \<open>
  The store of a configuration is one of the two classes above. What
  \<open>await config.store.increment(key, windowMs)\<close> hands to the middleware is, from
  \<open>MemoryStore\<close>, the reference that the map holds, and from \<open>RedisStore\<close> an object
  parsed or built for the call.
\<close>

datatype store_obj = MemoryStoreObj MemoryStore | RedisStoreObj redis_client

datatype record_handle = Stored ref | Parsed hit_record

fun store_increment ::
  "int \<Rightarrow> string \<Rightarrow> int \<Rightarrow> store_obj \<Rightarrow> js_error + record_handle \<times> store_obj" where
  "store_increment now key windowMs (MemoryStoreObj s) =
     (let (record, s') = MemoryStore_increment now key windowMs s
      in Inr (Stored record, MemoryStoreObj s'))"
| "store_increment now key windowMs (RedisStoreObj c) =
     (case RedisStore_increment now key windowMs c of
        Inl err \<Rightarrow> Inl err
      | Inr (record, c') \<Rightarrow> Inr (Parsed record, RedisStoreObj c'))"

text \<open>
  The fields \<open>record.hits\<close> and \<open>record.resetTime\<close> as the middleware reads them after
  the \<open>await\<close>: those of a parsed object are its own, those of a stored reference are
  read in the heap as it is at that time, after whatever ran in between. A \<open>RedisStore\<close>
  hands out no reference, so a reference is not read against one.
\<close>

fun read_record :: "record_handle \<Rightarrow> store_obj \<Rightarrow> hit_record option" where
  "read_record (Parsed record) st = Some record"
| "read_record (Stored record) (MemoryStoreObj s) = Some (heap s ! record)"
| "read_record (Stored record) (RedisStoreObj c) = None"

record request =
  ip :: string

text \<open>
  The argument \<open>options\<close>: each property may be absent, and one that is present has a
  value of its documented type (a number for \<open>windowMs\<close> and \<open>max\<close>). Properties that the factory does
  not know are carried by the extension part of the record, as the object spread
  \<open>{ ...defaults, ...options }\<close> copies them. A callback that may be \<open>null\<close> (\<open>handler\<close>,
  \<open>onLimitReached\<close>) is represented by whether it is set; what it does when called is
  outside the middleware, and its call is recorded as an effect. \<open>keyGenerator\<close> may
  throw, which is a result \<open>Inl\<close>. \<open>skip\<close> is called with \<open>req\<close> and \<open>res\<close>; nothing is
  written to \<open>res\<close> before it, so it is a predicate of the request. \<open>skip\<close>, the callbacks,
  the methods of \<open>res\<close> and \<open>next\<close> are taken to return normally.
\<close>

record options =
  opt_windowMs :: "int option"
  opt_max :: "int option"
  opt_message :: "string option"
  opt_statusCode :: "int option"
  opt_keyGenerator :: "(request \<Rightarrow> js_error + string) option"
  opt_skip :: "(request \<Rightarrow> bool) option"
  opt_store :: "store_obj option"
  opt_headers :: "bool option"
  opt_handler :: "bool option"
  opt_onLimitReached :: "bool option"

record config =
  windowMs :: int
  max_cfg :: int
  message :: string
  statusCode :: int
  keyGenerator :: "request \<Rightarrow> js_error + string"
  skip :: "request \<Rightarrow> bool"
  store_cfg :: store_obj
  headers :: bool
  handler :: bool
  onLimitReached :: bool

text \<open>
  The result of the factory is a sum, so that a failure of the construction has a value.
  The body of \<open>throttle\<close> has no \<open>throw\<close> and no check of its options, so no branch
  returns an error.
\<close>

definition or_default :: "'a option \<Rightarrow> 'a \<Rightarrow> 'a" where
  "or_default v d = (case v of None \<Rightarrow> d | Some x \<Rightarrow> x)"

definition throttle :: "'z options_scheme \<Rightarrow> js_error + 'z config_scheme" where
  "throttle options =
     Inr \<lparr> windowMs = or_default (opt_windowMs options) (60 * 1000),
           max_cfg = or_default (opt_max options) 60,
           message = or_default (opt_message options)
                       ''Too many requests, please try again later.'',
           statusCode = or_default (opt_statusCode options) 429,
           keyGenerator = or_default (opt_keyGenerator options) (\<lambda>req. Inr (ip req)),
           skip = or_default (opt_skip options) (\<lambda>req. False),
           store_cfg = or_default (opt_store options) (MemoryStoreObj MemoryStore_new),
           headers = or_default (opt_headers options) True,
           handler = or_default (opt_handler options) False,
           onLimitReached = or_default (opt_onLimitReached options) False,
           \<dots> = options.more options \<rparr>"

text \<open>
  What the middleware does to the request pipeline, in the order it does it: calls of
  \<open>next\<close>, of \<open>res.setHeader\<close>, of the callbacks, the rejection response
  \<open>res.status(code).json({ success, message })\<close>, and \<open>Throw\<close> for an exception that
  leaves the middleware function (the promise it returned is rejected).
\<close>

datatype effect =
    Next
  | NextErr js_error
  | SetHeader string int
  | OnLimitReached
  | Handler
  | StatusJson int bool string
  | Throw js_error

text \<open>
  The function returned by \<open>throttle\<close>. The headers and the decision are computed from
  the fields read from \<open>record\<close> after the \<open>await\<close>; \<open>now2\<close> is the reading of the clock
  for \<open>Retry-After\<close>.
\<close>

definition rate_headers :: "'z config_scheme \<Rightarrow> hit_record \<Rightarrow> effect list" where
  "rate_headers config record =
     (if headers config
      then [SetHeader ''X-RateLimit-Limit'' (max_cfg config),
            SetHeader ''X-RateLimit-Remaining'' (max 0 (max_cfg config - hits record)),
            SetHeader ''X-RateLimit-Reset'' (Math_ceil_div (resetTime record) 1000)]
      else [])"

definition limit_exceeded :: "'z config_scheme \<Rightarrow> int \<Rightarrow> hit_record \<Rightarrow> effect list" where
  "limit_exceeded config now2 record =
     (if onLimitReached config then [OnLimitReached] else []) @
     (if headers config
      then [SetHeader ''Retry-After'' (Math_ceil_div (resetTime record - now2) 1000)]
      else []) @
     (if handler config then [Handler]
      else [StatusJson (statusCode config) False (message config)])"

definition respond :: "'z config_scheme \<Rightarrow> int \<Rightarrow> hit_record \<Rightarrow> effect list" where
  "respond config now2 record =
     rate_headers config record @
     (if hits record > max_cfg config then limit_exceeded config now2 record else [Next])"

text \<open>
  A call of the middleware runs in two steps with a suspension between them. The first
  step runs from the entry to the \<open>await\<close>: the skip test, the key generator (outside the
  \<open>try\<close> block) and the call of \<open>store.increment\<close>, which reads the clock. The second step
  runs when the call is resumed: it reads the record and responds. Other calls may run
  between the two. The suspensions inside \<open>RedisStore.increment\<close> are those of
  \<open>redis_step\<close>; here that call is taken whole.
\<close>

datatype mw_call = Arrived request | Awaiting record_handle | Completed "effect list"

fun mw_step ::
  "'z config_scheme \<Rightarrow> int \<Rightarrow> mw_call \<Rightarrow> store_obj \<Rightarrow> mw_call \<times> store_obj" where
  "mw_step config clock (Arrived req) st =
     (if skip config req then (Completed [Next], st)
      else
        case keyGenerator config req of
          Inl err \<Rightarrow> (Completed [Throw err], st)
        | Inr key \<Rightarrow>
            (case store_increment clock key (windowMs config) st of
               Inl err \<Rightarrow> (Completed [NextErr err], st)
             | Inr (record, st') \<Rightarrow> (Awaiting record, st')))"
| "mw_step config clock (Awaiting record) st =
     (case read_record record st of
        None \<Rightarrow> (Awaiting record, st)
      | Some seen \<Rightarrow> (Completed (respond config clock seen), st))"
| "mw_step config clock (Completed effects) st = (Completed effects, st)"

fun effects_of :: "mw_call \<Rightarrow> effect list" where
  "effects_of (Completed effects) = effects"
| "effects_of call = []"


text \<open>
  One request served with nothing running between its two steps: \<open>now\<close> is the clock that
  \<open>store.increment\<close> reads and \<open>now2\<close> the later reading. The result is the list of
  effects and the configuration with the state the store is left in.
\<close>

definition throttle_middleware ::
  "'z config_scheme \<Rightarrow> int \<Rightarrow> int \<Rightarrow> request \<Rightarrow> effect list \<times> 'z config_scheme" where
  "throttle_middleware config now now2 req =
     (let (call, st) = mw_step config now (Arrived req) (store_cfg config);
          (call', st') = mw_step config now2 call st
      in (effects_of call', config\<lparr>store_cfg := st'\<rparr>))"

text \<open>Requests served one after the other by the same middleware.\<close>

fun serve :: "'z config_scheme \<Rightarrow> (int \<times> int \<times> request) list \<Rightarrow> effect list list" where
  "serve config [] = []"
| "serve config ((now, now2, req) # reqs) =
     (let (effects, config') = throttle_middleware config now now2 req
      in effects # serve config' reqs)"

definition admitted :: "effect list \<Rightarrow> bool" where
  "admitted effects \<longleftrightarrow> Next \<in> set effects"

fun is_rejection :: "effect \<Rightarrow> bool" where
  "is_rejection Handler = True"
| "is_rejection (StatusJson code success m) = True"
| "is_rejection e = False"

definition rejected :: "effect list \<Rightarrow> bool" where
  "rejected effects \<longleftrightarrow> list_ex is_rejection effects"

fun is_failure :: "effect \<Rightarrow> bool" where
  "is_failure (NextErr err) = True"
| "is_failure (Throw err) = True"
| "is_failure e = False"

definition header :: "string \<Rightarrow> effect list \<Rightarrow> int option" where
  "header name effects =
     map_of (rev (concat (map (\<lambda>e. case e of SetHeader n v \<Rightarrow> [(n, v)] | _ \<Rightarrow> []) effects))) name"

subsection \<open>Holders of references, invariants and sample states\<close>

text \<open>
  Whoever holds a reference to a record object can assign to its fields; the object is the
  one the map of the \<open>MemoryStore\<close> refers to.
\<close>

definition assign_fields :: "ref \<Rightarrow> hit_record \<Rightarrow> MemoryStore \<Rightarrow> MemoryStore" where
  "assign_fields record v s = s\<lparr>heap := (heap s)[record := v]\<rparr>"

text \<open>Every stored record has counted at least one hit, as records written by \<open>increment\<close> have.\<close>

fun hits_positive :: "store_obj \<Rightarrow> bool" where
  "hits_positive (MemoryStoreObj s) =
     (store_ok s \<and> list_all (\<lambda>a. 1 \<le> hits (heap s ! a)) (map snd (store s)))"
| "hits_positive (RedisStoreObj c) =
     list_all (\<lambda>e. 1 \<le> hits (payload e)) (map snd (db c))"

text \<open>
  An options object with the additional property \<open>failOpenOnStoreError\<close>, which the
  specification names and the source never reads.
\<close>

record fail_open_options = options +
  failOpenOnStoreError :: bool

text \<open>The options object \<open>{}\<close>.\<close>

definition no_options :: options where
  "no_options = \<lparr>opt_windowMs = None, opt_max = None, opt_message = None,
     opt_statusCode = None, opt_keyGenerator = None, opt_skip = None, opt_store = None,
     opt_headers = None, opt_handler = None, opt_onLimitReached = None\<rparr>"

text \<open>A key generator that throws, as \<open>(req) => req.body.email\<close> does without a body.\<close>

definition throwing_keyGenerator :: "request \<Rightarrow> js_error + string" where
  "throwing_keyGenerator req = Inl TypeError"

definition closed_client :: redis_client where
  "closed_client = \<lparr>connected = False, db = []\<rparr>"

definition open_client :: redis_client where
  "open_client = \<lparr>connected = True, db = []\<rparr>"

definition fail_open_redis :: fail_open_options where
  "fail_open_redis =
     options.extend (no_options\<lparr>opt_store := Some (RedisStoreObj closed_client)\<rparr>)
       (fail_open_options.fields True)"

definition demo_store :: MemoryStore where
  "demo_store = \<lparr>store = [(''ip1'', 0)], heap = [\<lparr>hits = 2, resetTime = 1000\<rparr>]\<rparr>"

definition demo_client :: redis_client where
  "demo_client = \<lparr>connected = True,
     db = [(''throttle:ip1'', \<lparr>payload = \<lparr>hits = 2, resetTime = 1000\<rparr>, ttl = 1\<rparr>)]\<rparr>"

definition demo_request :: request where
  "demo_request = \<lparr>ip = ''ip1''\<rparr>"

text \<open>
  The condition under which \<open>increment\<close> starts a window: no record for the key, or
  \<open>now > record.resetTime\<close>.
\<close>

definition starts_window :: "int \<Rightarrow> hit_record option \<Rightarrow> bool" where
  "starts_window now data = (case data of None \<Rightarrow> True | Some record \<Rightarrow> now > resetTime record)"

text \<open>
  Configurations built by the factory: a window of one second with at most two hits, the
  same with at most one hit and with no hit allowed, and the one built from
  \<open>fail_open_redis\<close>.
\<close>

definition scenario_config :: config where
  "scenario_config =
     projr (throttle (no_options\<lparr>opt_windowMs := Some 1000, opt_max := Some 2\<rparr>))"

definition one_config :: config where
  "one_config =
     projr (throttle (no_options\<lparr>opt_windowMs := Some 1000, opt_max := Some 1\<rparr>))"

definition zero_config :: config where
  "zero_config =
     projr (throttle (no_options\<lparr>opt_windowMs := Some 1000, opt_max := Some 0\<rparr>))"

definition fail_open_config :: "\<lparr>failOpenOnStoreError :: bool\<rparr> config_scheme" where
  "fail_open_config = projr (throttle fail_open_redis)"

definition throwing_config :: config where
  "throwing_config =
     projr (throttle (no_options\<lparr>opt_keyGenerator := Some throwing_keyGenerator\<rparr>))"





subsection \<open>Auxiliary facts about the stores\<close>

lemma cleanup_loop_map_of:
  "map_of (cleanup_loop now h es m) k =
     (if \<exists>a. (k, a) \<in> set es \<and> now > resetTime (h ! a) then None else map_of m k)"
proof (induction es arbitrary: m)
  case Nil
  then show ?case by simp
next
  case (Cons e es)
  obtain key a where e: "e = (key, a)" by (cases e)
  show ?case
    unfolding e by (auto simp: Cons.IH Map_delete_def delete_conv)
qed

lemma MemoryStore_get_map_of: "MemoryStore_get key s = map_of (store s) key"
  by (simp add: MemoryStore_get_def Map_has_def Map_get_def)

lemma cleanup_get:
  assumes "distinct (map fst (store s))"
  shows "MemoryStore_get key (MemoryStore_cleanup now s) =
       (case MemoryStore_get key s of
          None \<Rightarrow> None
        | Some record \<Rightarrow> if now > resetTime (heap s ! record) then None else Some record)"
  by (auto simp: MemoryStore_get_map_of MemoryStore_cleanup_def 
       cleanup_loop_map_of map_of_eq_Some_iff[OF assms, symmetric] split: option.splits)

lemma Map_set_absent: "map_of m key = None \<Longrightarrow> Map_set key v m = m @ [(key, v)]"
  unfolding Map_set_def by (induction m) (auto split: if_splits)

lemma hit_record_update_both [simp]:
  "(r::hit_record)\<lparr>hits := h, resetTime := t\<rparr> = \<lparr>hits = h, resetTime = t\<rparr>"
  by (cases r) simp

lemma hit_record_update_hits:
  "(r::hit_record)\<lparr>hits := h\<rparr> = \<lparr>hits = h, resetTime = resetTime r\<rparr>"
  by (cases r) simp

lemma increment_absent:
  assumes "MemoryStore_get key s = None"
  shows "MemoryStore_increment now key w s =
      (length (heap s),
       s\<lparr>store := store s @ [(key, length (heap s))],
         heap := heap s @ [\<lparr>hits = 1, resetTime = now + w\<rparr>]\<rparr>)"
  using assms
  by (simp add: MemoryStore_get_map_of MemoryStore_increment_def Map_get_def new_object_def
      Map_set_absent)

lemma increment_present:
  assumes "MemoryStore_get key s = Some a"
  shows "MemoryStore_increment now key w s =
      (a, s\<lparr>heap := (heap s)[a :=
              (if now > resetTime (heap s ! a) then \<lparr>hits = 1, resetTime = now + w\<rparr>
               else \<lparr>hits = hits (heap s ! a) + 1, resetTime = resetTime (heap s ! a)\<rparr>)]\<rparr>)"
  using assms
  by (simp add: MemoryStore_get_map_of MemoryStore_increment_def Map_get_def
      hit_record_update_hits)

lemma store_ok_valid:
  "store_ok s \<Longrightarrow> MemoryStore_get key s = Some a \<Longrightarrow> a < length (heap s)"
  by (auto simp: store_ok_def MemoryStore_get_map_of dest!: map_of_SomeD)

lemma store_ok_new: "store_ok MemoryStore_new"
  by (simp add: store_ok_def MemoryStore_new_def)

lemma store_ok_increment:
  assumes "store_ok s"
  shows "store_ok (snd (MemoryStore_increment now key w s))"
proof (cases "MemoryStore_get key s")
  case None
  then have "key \<notin> fst ` set (store s)"
    by (simp add: MemoryStore_get_map_of map_of_eq_None_iff)
  moreover have "length (heap s) \<notin> snd ` set (store s)"
    using assms by (auto simp: store_ok_def)
  ultimately show ?thesis
    using assms by (auto simp: increment_absent[OF None] store_ok_def less_Suc_eq)
next
  case (Some a)
  then show ?thesis
    using assms by (simp add: increment_present store_ok_def)
qed

lemma cleanup_loop_filter:
  "\<exists>P. cleanup_loop now h es m = filter P m"
proof (induction es arbitrary: m)
  case Nil
  show ?case by (rule exI[of _ "\<lambda>_. True"]) simp
next
  case (Cons e es)
  obtain key a where e: "e = (key, a)" by (cases e)
  show ?case
  proof (cases "now > resetTime (h ! a)")
    case True
    from Cons.IH[of "Map_delete key m"] obtain P where
      "cleanup_loop now h es (Map_delete key m) = filter P (Map_delete key m)" by blast
    then show ?thesis
      unfolding e using True by (auto simp: Map_delete_def AList.delete_eq)
  next
    case False
    then show ?thesis unfolding e using Cons.IH[of m] by simp
  qed
qed

lemma store_ok_cleanup:
  assumes "store_ok s"
  shows "store_ok (MemoryStore_cleanup now s)"
proof -
  obtain P where P: "cleanup_loop now (heap s) (store s) (store s) = filter P (store s)"
    using cleanup_loop_filter by blast
  show ?thesis
    using assms unfolding store_ok_def MemoryStore_cleanup_def P
    by (auto simp: distinct_map_filter)
qed


lemma heap_cleanup [simp]: "heap (MemoryStore_cleanup now s) = heap s"
  by (simp add: MemoryStore_cleanup_def)

lemma get_after_increment:
  "MemoryStore_get key (snd (MemoryStore_increment now key w s)) =
     Some (fst (MemoryStore_increment now key w s))"
proof (cases "MemoryStore_get key s")
  case None
  then show ?thesis
    by (simp add: increment_absent) (simp add: MemoryStore_get_map_of map_add_def)
next
  case (Some a)
  then show ?thesis
    by (simp add: increment_present) (simp add: MemoryStore_get_map_of)
qed

lemma next_record_eq:
  "next_record now w data =
     (case data of
        None \<Rightarrow> \<lparr>hits = 1, resetTime = now + w\<rparr>
      | Some old \<Rightarrow>
          if now > resetTime old then \<lparr>hits = 1, resetTime = now + w\<rparr>
          else \<lparr>hits = hits old + 1, resetTime = resetTime old\<rparr>)"
  by (simp add: next_record_def hit_record_update_hits split: option.splits)

lemma read_after_increment:
  assumes "store_ok s"
  shows "heap (snd (MemoryStore_increment now key w s)) ! fst (MemoryStore_increment now key w s) =
     next_record now w (map_option (\<lambda>a. heap s ! a) (MemoryStore_get key s))"
proof (cases "MemoryStore_get key s")
  case None
  then show ?thesis by (simp add: increment_absent next_record_eq)
next
  case (Some a)
  then show ?thesis
    using store_ok_valid[OF assms Some] by (simp add: increment_present next_record_eq)
qed

lemma increments_in_window:
  assumes "MemoryStore_get key s = Some a" "a < length (heap s)"
    and "\<forall>t \<in> set ts. t \<le> resetTime (heap s ! a)"
  shows "MemoryStore_get key (MemoryStore_increments ts key w s) = Some a \<and>
         heap (MemoryStore_increments ts key w s) ! a =
           \<lparr>hits = hits (heap s ! a) + int (length ts), resetTime = resetTime (heap s ! a)\<rparr>"
  using assms
proof (induction ts arbitrary: s)
  case Nil
  then show ?case by simp
next
  case (Cons t ts)
  let ?s' = "snd (MemoryStore_increment t key w s)"
  have s': "?s' = s\<lparr>heap := (heap s)[a :=
      \<lparr>hits = hits (heap s ! a) + 1, resetTime = resetTime (heap s ! a)\<rparr>]\<rparr>"
    using Cons.prems by (simp add: increment_present)
  have "MemoryStore_get key ?s' = Some a" "a < length (heap ?s')"
    "\<forall>t \<in> set ts. t \<le> resetTime (heap ?s' ! a)"
    using Cons.prems by (simp_all add: s' MemoryStore_get_map_of)
  from Cons.IH[OF this] show ?case
    using Cons.prems(2) by (simp add: s')
qed

lemma Math_ceil_div_pos: "0 < Math_ceil_div x 1000 \<longleftrightarrow> 0 < x"
  unfolding Math_ceil_div_def by (simp add: pos_imp_zdiv_neg_iff)


lemma Math_ceil_div_ge1: "1 \<le> Math_ceil_div x 1000 \<longleftrightarrow> 0 < x"
  using Math_ceil_div_pos[of x] by linarith

lemma client_get_after_setEx:
  assumes "client_setEx c k seconds v = Inr c'"
  shows "client_get c' k = Inr (Some v) \<and> connected c'"
  using assms by (auto simp: client_setEx_def client_get_def update_conv' split: if_splits)

lemma RedisStore_increment_in_window:
  assumes "client_get c (redisKey key) = Inr (Some r)" "t < resetTime r"
  shows "\<exists>c'. RedisStore_increment t key w c =
            Inr (\<lparr>hits = hits r + 1, resetTime = resetTime r\<rparr>, c') \<and>
          client_get c' (redisKey key) =
            Inr (Some \<lparr>hits = hits r + 1, resetTime = resetTime r\<rparr>)"
proof -
  let ?r' = "\<lparr>hits = hits r + 1, resetTime = resetTime r\<rparr>"
  have con: "connected c"
    using assms(1) by (auto simp: client_get_def split: if_splits)
  have nr: "next_record t w (Some r) = ?r'"
    using assms(2) by (simp add: next_record_eq)
  have "0 < Math_ceil_div (resetTime ?r' - t) 1000"
    using assms(2) by (simp add: Math_ceil_div_pos)
  then obtain c' where
    c': "client_setEx c (redisKey key) (Math_ceil_div (resetTime ?r' - t) 1000) ?r' = Inr c'"
    using con by (simp add: client_setEx_def)
  have "RedisStore_increment t key w c = Inr (?r', c')"
    using assms(1) c' by (simp add: RedisStore_increment_def write_record_def nr)
  moreover have "client_get c' (redisKey key) = Inr (Some ?r')"
    using client_get_after_setEx[OF c'] by simp
  ultimately show ?thesis by blast
qed

lemma RedisStore_increment_new_window:
  assumes "client_get c (redisKey key) = Inr data"
    and "data = None \<or> (\<exists>r. data = Some r \<and> t > resetTime r)" and "0 < w"
  shows "\<exists>c'. RedisStore_increment t key w c = Inr (\<lparr>hits = 1, resetTime = t + w\<rparr>, c') \<and>
          client_get c' (redisKey key) = Inr (Some \<lparr>hits = 1, resetTime = t + w\<rparr>)"
proof -
  let ?r' = "\<lparr>hits = 1, resetTime = t + w\<rparr>"
  have con: "connected c"
    using assms(1) by (auto simp: client_get_def split: if_splits)
  have nr: "next_record t w data = ?r'"
    using assms(2) by (auto simp: next_record_eq)
  have "0 < Math_ceil_div (resetTime ?r' - t) 1000"
    using assms(3) by (simp add: Math_ceil_div_pos)
  then obtain c' where
    c': "client_setEx c (redisKey key) (Math_ceil_div (resetTime ?r' - t) 1000) ?r' = Inr c'"
    using con by (simp add: client_setEx_def)
  have "RedisStore_increment t key w c = Inr (?r', c')"
    using assms(1) c' by (simp add: RedisStore_increment_def write_record_def nr)
  moreover have "client_get c' (redisKey key) = Inr (Some ?r')"
    using client_get_after_setEx[OF c'] by simp
  ultimately show ?thesis by blast
qed

lemma RedisStore_increments_in_window:
  assumes "client_get c (redisKey key) = Inr (Some r)"
    and "\<forall>t \<in> set ts. t < resetTime r"
  shows "\<exists>c'. RedisStore_increments ts key w c = Inr c' \<and>
          client_get c' (redisKey key) =
            Inr (Some \<lparr>hits = hits r + int (length ts), resetTime = resetTime r\<rparr>)"
  using assms
proof (induction ts arbitrary: c r)
  case Nil
  then show ?case by simp
next
  case (Cons t ts)
  let ?r' = "\<lparr>hits = hits r + 1, resetTime = resetTime r\<rparr>"
  from Cons.prems have "t < resetTime r" by simp
  from RedisStore_increment_in_window[OF Cons.prems(1) this, of w] obtain c1 where
    c1: "RedisStore_increment t key w c = Inr (?r', c1)"
        "client_get c1 (redisKey key) = Inr (Some ?r')"
    by blast
  have "\<forall>t \<in> set ts. t < resetTime ?r'" using Cons.prems(2) by simp
  from Cons.IH[OF c1(2) this] have
    "\<exists>c'. RedisStore_increments ts key w c1 = Inr c' \<and>
       client_get c' (redisKey key) =
         Inr (Some \<lparr>hits = hits r + int (length (t # ts)), resetTime = resetTime r\<rparr>)"
    by (simp add: add.assoc)
  then show ?case by (simp add: c1(1))
qed

lemma store_ok_demo: "store_ok demo_store"
  by (simp add: demo_store_def store_ok_def)

subsection \<open>What increment stores and returns\<close>

text \<open>
  Both stores at once: the record that \<open>increment\<close> leaves and returns, for a
  \<open>RedisStore\<close> whose client accepts both commands; and when, for a window that is
  positive, the client does not.
\<close>

lemma increment_contract:
  assumes ok: "store_ok s"
    and reply: "client_get c (redisKey key) = Inr data"
    and written: "client_setEx c (redisKey key)
        (Math_ceil_div (resetTime (next_record now w data) - now) 1000)
        (next_record now w data) = Inr c'"
  shows "(let (record, s') = MemoryStore_increment now key w s
          in MemoryStore_get key s' = Some record \<and>
             heap s' ! record =
               (case MemoryStore_get key s of
                  None \<Rightarrow> \<lparr>hits = 1, resetTime = now + w\<rparr>
                | Some old \<Rightarrow>
                    if now > resetTime (heap s ! old) then \<lparr>hits = 1, resetTime = now + w\<rparr>
                    else \<lparr>hits = hits (heap s ! old) + 1,
                          resetTime = resetTime (heap s ! old)\<rparr>)) \<and>
         RedisStore_increment now key w c =
           Inr (case data of
                  None \<Rightarrow> \<lparr>hits = 1, resetTime = now + w\<rparr>
                | Some old \<Rightarrow>
                    if now > resetTime old then \<lparr>hits = 1, resetTime = now + w\<rparr>
                    else \<lparr>hits = hits old + 1, resetTime = resetTime old\<rparr>, c') \<and>
         RedisStore_get key c' = Inr (Some (next_record now w data))"
proof -
  have mem: "MemoryStore_get key (snd (MemoryStore_increment now key w s)) =
      Some (fst (MemoryStore_increment now key w s))"
    by (rule get_after_increment)
  have rd: "heap (snd (MemoryStore_increment now key w s)) ! fst (MemoryStore_increment now key w s) =
      (case MemoryStore_get key s of
                  None \<Rightarrow> \<lparr>hits = 1, resetTime = now + w\<rparr>
                | Some old \<Rightarrow>
                    if now > resetTime (heap s ! old) then \<lparr>hits = 1, resetTime = now + w\<rparr>
                    else \<lparr>hits = hits (heap s ! old) + 1,
                          resetTime = resetTime (heap s ! old)\<rparr>)"
    unfolding read_after_increment[OF ok] next_record_eq by (simp split: option.splits)
  have red: "RedisStore_increment now key w c = Inr (next_record now w data, c')"
    using reply written by (simp add: RedisStore_increment_def write_record_def)
  have "connected c'" "map_of (db c') (redisKey key) \<noteq> None \<and> map_option payload (map_of (db c') (redisKey key)) = Some (next_record now w data)"
    using written by (auto simp: client_setEx_def update_conv' split: if_splits)
  then have got: "RedisStore_get key c' = Inr (Some (next_record now w data))"
    by (simp add: RedisStore_get_def client_get_def)
  show ?thesis
    using mem rd red got by (simp add: case_prod_unfold next_record_eq)
qed

lemma RedisStore_increment_cases:
  assumes reply: "client_get c (redisKey key) = Inr data" and positive: "0 < w"
  shows "RedisStore_increment now key w c =
     (if \<exists>old. data = Some old \<and> now = resetTime old then Inl ReplyError
      else Inr (next_record now w data,
                c\<lparr>db := AList.update (redisKey key)
                   \<lparr>payload = next_record now w data,
                    ttl = Math_ceil_div (resetTime (next_record now w data) - now) 1000\<rparr>
                   (db c)\<rparr>))"
proof -
  have con: "connected c"
    using reply by (auto simp: client_get_def split: if_splits)
  have ttl: "Math_ceil_div (resetTime (next_record now w data) - now) 1000 \<le> 0 \<longleftrightarrow>
      (\<exists>old. data = Some old \<and> now = resetTime old)"
    using positive Math_ceil_div_pos[of "resetTime (next_record now w data) - now"]
    by (cases data) (auto simp: next_record_eq)
  show ?thesis
    using reply con ttl
    by (simp add: RedisStore_increment_def write_record_def client_setEx_def Let_def)
qed

subsection \<open>Auxiliary facts about the middleware\<close>

lemma redis_step_twice:
  "redis_step t' (fst (redis_step t (Called key w) c)) (snd (redis_step t (Called key w) c)) =
     (case RedisStore_increment t key w c of
        Inl err \<Rightarrow> (Failed err, c)
      | Inr (r, c') \<Rightarrow> (Returned r, c'))"
  by (simp add: RedisStore_increment_def split: sum.splits)

lemma store_increment_memory:
  "store_increment now key w (MemoryStoreObj s) =
     Inr (Stored (fst (MemoryStore_increment now key w s)),
          MemoryStoreObj (snd (MemoryStore_increment now key w s)))"
  by (simp add: case_prod_unfold Let_def)

lemma config_unchanged: "config\<lparr>store_cfg := store_cfg config\<rparr> = config"
  by simp

lemma middleware_result:
  assumes "\<not> skip config req" "keyGenerator config req = Inr key"
    and "store_increment now key (windowMs config) (store_cfg config) = Inr (h, st)"
    and "read_record h st = Some r"
  shows "throttle_middleware config now now2 req =
     (respond config now2 r, config\<lparr>store_cfg := st\<rparr>)"
  using assms by (simp add: throttle_middleware_def)

lemma resume_step:
  assumes "read_record h st = Some r"
  shows "mw_step config now2 (Awaiting h) st = (Completed (respond config now2 r), st)"
  using assms by simp

lemma admitted_effects:
  "admitted (respond config now2 r) \<longleftrightarrow> hits r \<le> max_cfg config"
  by (simp add: respond_def admitted_def rate_headers_def limit_exceeded_def)

lemma rejected_effects:
  "rejected (respond config now2 r) \<longleftrightarrow> hits r > max_cfg config"
  by (simp add: respond_def rejected_def rate_headers_def limit_exceeded_def)

lemma failure_effects:
  "\<not> list_ex is_failure (respond config now2 r)"
  by (simp add: respond_def rate_headers_def limit_exceeded_def)

lemma retry_after_effects:
  "header ''Retry-After'' (respond config now2 r) =
     (if headers config \<and> hits r > max_cfg config
      then Some (Math_ceil_div (resetTime r - now2) 1000) else None)"
  by (simp add: respond_def header_def rate_headers_def limit_exceeded_def)



lemma next_record_positive:
  assumes "\<And>r. data = Some r \<Longrightarrow> 1 \<le> hits r"
  shows "1 \<le> hits (next_record now w data)"
  using assms by (cases data) (auto simp: next_record_eq)

lemma update_values: "set (map snd (AList.update k v al)) \<subseteq> insert v (set (map snd al))"
  by (induction al) auto

lemma MemoryStore_increment_positive:
  assumes ok: "store_ok s" and pos: "list_all (\<lambda>a. 1 \<le> hits (heap s ! a)) (map snd (store s))"
  shows "1 \<le> hits (heap (snd (MemoryStore_increment now key w s)) !
                     fst (MemoryStore_increment now key w s)) \<and>
         list_all (\<lambda>a. 1 \<le> hits (heap (snd (MemoryStore_increment now key w s)) ! a))
           (map snd (store (snd (MemoryStore_increment now key w s))))"
proof (cases "MemoryStore_get key s")
  case None
  have "\<forall>a \<in> set (map snd (store s)). a < length (heap s)"
    using ok by (simp add: store_ok_def)
  then show ?thesis
    using pos by (auto simp: increment_absent[OF None] list_all_iff nth_append)
next
  case (Some a)
  have "a \<in> set (map snd (store s))"
    using Some by (auto simp: MemoryStore_get_map_of dest!: map_of_SomeD intro: rev_image_eqI)
  then have "1 \<le> hits (heap s ! a)" "a < length (heap s)"
    using pos ok by (auto simp: list_all_iff store_ok_def)
  then show ?thesis
    using pos by (auto simp: increment_present[OF Some] list_all_iff nth_list_update)
qed

lemma store_increment_positive:
  assumes "hits_positive st" "store_increment now key w st = Inr (h, st')"
  shows "(\<exists>r. read_record h st' = Some r \<and> 1 \<le> hits r) \<and> hits_positive st'"
proof (cases st)
  case (MemoryStoreObj s)
  have ok: "store_ok s" and pos: "list_all (\<lambda>a. 1 \<le> hits (heap s ! a)) (map snd (store s))"
    using assms(1) by (simp_all add: MemoryStoreObj)
  have h: "h = Stored (fst (MemoryStore_increment now key w s))"
    and st': "st' = MemoryStoreObj (snd (MemoryStore_increment now key w s))"
    using assms(2) by (auto simp: MemoryStoreObj case_prod_unfold Let_def)
  show ?thesis
    unfolding h st' using MemoryStore_increment_positive[OF ok pos] store_ok_increment[OF ok]
    by simp
next
  case (RedisStoreObj c)
  obtain data where data: "client_get c (redisKey key) = Inr data"
    using assms(2) by (cases "client_get c (redisKey key)")
      (simp_all add: RedisStoreObj RedisStore_increment_def)
  have pos: "\<forall>e \<in> set (map snd (db c)). 1 \<le> hits (payload e)"
    using assms(1) by (simp add: RedisStoreObj list_all_iff)
  have "1 \<le> hits r'" if "data = Some r'" for r'
  proof -
    from that data obtain e where "map_of (db c) (redisKey key) = Some e" "payload e = r'"
      by (auto simp: client_get_def split: if_splits)
    then show ?thesis using pos by (auto dest!: map_of_SomeD)
  qed
  then have nr: "1 \<le> hits (next_record now w data)"
    by (rule next_record_positive)
  obtain r c' where c': "write_record now key (next_record now w data) c = Inr (r, c')"
    and h: "h = Parsed r" and st': "st' = RedisStoreObj c'"
    using assms(2) data
    by (cases "write_record now key (next_record now w data) c")
      (auto simp: RedisStoreObj RedisStore_increment_def)
  have r: "r = next_record now w data"
    and db: "db c' = AList.update (redisKey key)
       \<lparr>payload = r, ttl = Math_ceil_div (resetTime r - now) 1000\<rparr> (db c)"
    using c' by (auto simp: write_record_def client_setEx_def Let_def split: sum.splits if_splits)
  have "\<forall>e \<in> set (map snd (db c')). 1 \<le> hits (payload e)"
    using update_values[of "redisKey key" _ "db c"] pos nr unfolding db r by fastforce
  then show ?thesis
    using nr by (simp add: h st' r list_all_iff)
qed


lemma Math_ceil_div_neg: "Math_ceil_div x 1000 < 0 \<longleftrightarrow> x \<le> - 1000"
  unfolding Math_ceil_div_def using pos_imp_zdiv_pos_iff[of 1000 "- x"] by linarith

lemma Math_ceil_div_ceiling: "Math_ceil_div a b = \<lceil>real_of_int a / real_of_int b\<rceil>"
proof -
  have "\<lfloor>real_of_int (- a) / real_of_int b\<rfloor> = (- a) div b"
    by (rule floor_divide_of_int_eq)
  then show ?thesis
    unfolding Math_ceil_div_def ceiling_def by simp
qed

lemma MemoryStore_get_new: "MemoryStore_get key MemoryStore_new = None"
  by (simp add: MemoryStore_get_def Map_has_def MemoryStore_new_def)

lemma first_increment_new:
  "store_increment now key w (MemoryStoreObj MemoryStore_new) =
     Inr (Stored 0,
          MemoryStoreObj \<lparr>store = [(key, 0)], heap = [\<lparr>hits = 1, resetTime = now + w\<rparr>]\<rparr>)"
  by (simp add: increment_absent[OF MemoryStore_get_new]) (simp add: MemoryStore_new_def)



lemma hits_positive_new: "hits_positive (MemoryStoreObj MemoryStore_new)"
  by (simp add: store_ok_new) (simp add: MemoryStore_new_def)

lemma hits_positive_cleanup:
  assumes "hits_positive (MemoryStoreObj s)"
  shows "hits_positive (MemoryStoreObj (MemoryStore_cleanup now s))"
proof -
  obtain P where P: "cleanup_loop now (heap s) (store s) (store s) = filter P (store s)"
    using cleanup_loop_filter by blast
  have "set (map snd (filter P (store s))) \<subseteq> set (map snd (store s))" by auto
  then show ?thesis
    using assms store_ok_cleanup[of s now]
    by (auto simp: list_all_iff MemoryStore_cleanup_def P)
qed

subsection \<open>The sample configurations, evaluated\<close>


lemma zero_config_eval:
  "windowMs zero_config = 1000" "max_cfg zero_config = 0"
  "store_cfg zero_config = MemoryStoreObj MemoryStore_new"
  "skip zero_config req = False" "keyGenerator zero_config req = Inr (ip req)"
  "headers zero_config = True" "handler zero_config = False"
  "onLimitReached zero_config = False" "statusCode zero_config = 429"
  by (simp_all add: zero_config_def throttle_def no_options_def or_default_def)

lemma fail_open_config_eval:
  "store_cfg fail_open_config = RedisStoreObj closed_client"
  "skip fail_open_config req = False" "keyGenerator fail_open_config req = Inr (ip req)"
  "config.more fail_open_config = fail_open_options.fields True"
  "windowMs fail_open_config = 60000"
  by (simp_all add: fail_open_config_def fail_open_redis_def throttle_def no_options_def
      or_default_def options.defs fail_open_options.defs)

lemma one_config_eval:
  "windowMs one_config = 1000" "max_cfg one_config = 1"
  "store_cfg one_config = MemoryStoreObj MemoryStore_new"
  "skip one_config req = False" "keyGenerator one_config req = Inr (ip req)"
  "headers one_config = True" "handler one_config = False"
  "onLimitReached one_config = False" "statusCode one_config = 429"
  by (simp_all add: one_config_def throttle_def no_options_def or_default_def)



section \<open>The claims\<close>

subsection \<open>The contract of increment\<close>

text \<open>
  C2: \<open>increment(key, windowMs)\<close> creates a fresh record with \<open>hits = 1\<close> and
  \<open>resetTime = now + windowMs\<close> when no record exists for the key or the existing
  record's \<open>resetTime\<close> has passed; otherwise it adds exactly 1 to \<open>hits\<close>, leaves
  \<open>resetTime\<close> unchanged, and returns the record after the increment. \<open>MemoryStore\<close>
  does so at every time (\<open>increment_contract\<close>). \<open>RedisStore\<close> does so at every time but
  one (\<open>RedisStore_increment_cases\<close>): at the instant \<open>now = resetTime\<close> of an existing
  record the window has not passed, since the test is \<open>now > record.resetTime\<close>, and
  \<open>hits\<close> is incremented, but the time to live is \<open>Math.ceil(0 / 1000) = 0\<close>, which
  \<open>SETEX\<close> refuses. The call fails; no record is stored or returned. Below, a record
  with two hits whose window ends at 1000, incremented at 1000 in either store.
\<close>

theorem redis_increment_refused_at_reset_instant:
  "RedisStore_get ''ip1'' demo_client = Inr (Some \<lparr>hits = 2, resetTime = 1000\<rparr>) \<and>
   RedisStore_increment 1000 ''ip1'' 1000 demo_client = Inl ReplyError \<and>
   MemoryStore_get ''ip1'' demo_store = Some 0 \<and>
   heap demo_store ! 0 = \<lparr>hits = 2, resetTime = 1000\<rparr> \<and>
   MemoryStore_increment 1000 ''ip1'' 1000 demo_store =
     (0, \<lparr>store = [(''ip1'', 0)], heap = [\<lparr>hits = 3, resetTime = 1000\<rparr>]\<rparr>)"
  by (simp add: RedisStore_get_def RedisStore_increment_def write_record_def client_get_def
      client_setEx_def next_record_def Math_ceil_div_def redisKey_def demo_client_def
      MemoryStore_get_def MemoryStore_increment_def Map_has_def Map_get_def demo_store_def)

subsection \<open>Calls of increment in flight together\<close>

text \<open>
  C1 (as amended): a call of \<open>MemoryStore.increment\<close> runs without suspension, so calls
  made together run one after the other; when the first of M calls starts a window at
  \<open>t0\<close> and the others run no later than \<open>t0 + windowMs\<close>, the stored \<open>hits\<close> is exactly
  M. For \<open>RedisStore\<close> the same count is reached when the calls do not overlap, each
  \<open>GET\<close> and \<open>SETEX\<close> pair completing before the next call starts, when the connection
  is open, the window is positive, and the calls after the first run before
  \<open>t0 + windowMs\<close>. Nothing is promised for \<open>RedisStore\<close> calls that overlap.
\<close>

theorem increments_without_overlap:
  "(store_ok s \<and>
    starts_window t0 (map_option (\<lambda>a. heap s ! a) (MemoryStore_get key s)) \<and>
    (\<forall>t \<in> set ts. t \<le> t0 + w) \<longrightarrow>
      (\<exists>a. MemoryStore_get key (MemoryStore_increments (t0 # ts) key w s) = Some a \<and>
         heap (MemoryStore_increments (t0 # ts) key w s) ! a =
           \<lparr>hits = int (length (t0 # ts)), resetTime = t0 + w\<rparr>)) \<and>
   (client_get c (redisKey key) = Inr data \<and> starts_window t0 data \<and> 0 < w \<and>
    (\<forall>t \<in> set ts. t < t0 + w) \<longrightarrow>
      (\<exists>c'. RedisStore_increments (t0 # ts) key w c = Inr c' \<and>
         RedisStore_get key c' =
           Inr (Some \<lparr>hits = int (length (t0 # ts)), resetTime = t0 + w\<rparr>)))"
proof (intro conjI impI)
  assume a: "store_ok s \<and>
    starts_window t0 (map_option (\<lambda>a. heap s ! a) (MemoryStore_get key s)) \<and>
    (\<forall>t \<in> set ts. t \<le> t0 + w)"
  then have ok: "store_ok s"
    and fresh: "starts_window t0 (map_option (\<lambda>a. heap s ! a) (MemoryStore_get key s))"
    and window: "\<forall>t \<in> set ts. t \<le> t0 + w"
    by blast+
  let ?a = "fst (MemoryStore_increment t0 key w s)"
  let ?s1 = "snd (MemoryStore_increment t0 key w s)"
  have nr: "next_record t0 w (map_option (\<lambda>a. heap s ! a) (MemoryStore_get key s)) =
      \<lparr>hits = 1, resetTime = t0 + w\<rparr>"
    using fresh by (auto simp: starts_window_def next_record_eq split: option.splits)
  have rd: "heap ?s1 ! ?a = \<lparr>hits = 1, resetTime = t0 + w\<rparr>"
    using read_after_increment[OF ok, of t0 key w] nr by simp
  have g: "MemoryStore_get key ?s1 = Some ?a" by (rule get_after_increment)
  have v: "?a < length (heap ?s1)"
    by (rule store_ok_valid[OF store_ok_increment[OF ok] g])
  have "\<forall>t \<in> set ts. t \<le> resetTime (heap ?s1 ! ?a)"
    using window by (simp add: rd)
  from increments_in_window[OF g v this, of w]
  show "\<exists>a. MemoryStore_get key (MemoryStore_increments (t0 # ts) key w s) = Some a \<and>
            heap (MemoryStore_increments (t0 # ts) key w s) ! a =
              \<lparr>hits = int (length (t0 # ts)), resetTime = t0 + w\<rparr>"
    by (simp add: rd)
next
  assume b: "client_get c (redisKey key) = Inr data \<and> starts_window t0 data \<and> 0 < w \<and>
    (\<forall>t \<in> set ts. t < t0 + w)"
  then have reply: "client_get c (redisKey key) = Inr data" and fresh': "starts_window t0 data"
    and positive: "0 < w" and inside: "\<forall>t \<in> set ts. t < t0 + w"
    by blast+
  let ?r1 = "\<lparr>hits = 1, resetTime = t0 + w\<rparr>"
  have "data = None \<or> (\<exists>r. data = Some r \<and> t0 > resetTime r)"
    using fresh' by (auto simp: starts_window_def split: option.splits)
  from RedisStore_increment_new_window[OF reply this positive] obtain c1 where
    c1: "RedisStore_increment t0 key w c = Inr (?r1, c1)"
        "client_get c1 (redisKey key) = Inr (Some ?r1)"
    by blast
  have "\<forall>t \<in> set ts. t < resetTime ?r1"
    using inside by simp
  from RedisStore_increments_in_window[OF c1(2) this, of w] obtain c' where
    c': "RedisStore_increments ts key w c1 = Inr c'"
        "client_get c' (redisKey key) =
           Inr (Some \<lparr>hits = hits ?r1 + int (length ts), resetTime = resetTime ?r1\<rparr>)"
    by blast
  have "RedisStore_increments (t0 # ts) key w c = Inr c'"
    by (simp add: c1(1) c'(1))
  moreover have "RedisStore_get key c' =
      Inr (Some \<lparr>hits = int (length (t0 # ts)), resetTime = t0 + w\<rparr>)"
    using c'(2) by (simp add: RedisStore_get_def)
  ultimately show "\<exists>c'. RedisStore_increments (t0 # ts) key w c = Inr c' \<and>
            RedisStore_get key c' =
              Inr (Some \<lparr>hits = int (length (t0 # ts)), resetTime = t0 + w\<rparr>)"
    by blast
qed

text \<open>
  Three calls on an empty store, window one second: at 0, 10 and 1000 ms on a
  \<open>MemoryStore\<close>, at 0, 10 and 999 ms on a \<open>RedisStore\<close>.
\<close>

theorem increments_without_overlap_witness:
  "store_ok MemoryStore_new \<and>
   starts_window 0 (map_option (\<lambda>a. heap MemoryStore_new ! a)
     (MemoryStore_get ''ip1'' MemoryStore_new)) \<and>
   client_get open_client (redisKey ''ip1'') = Inr None \<and>
   starts_window 0 None \<and>
   MemoryStore_increments [0, 10, 1000] ''ip1'' 1000 MemoryStore_new =
     \<lparr>store = [(''ip1'', 0)], heap = [\<lparr>hits = 3, resetTime = 1000\<rparr>]\<rparr> \<and>
   RedisStore_increments [0, 10, 999] ''ip1'' 1000 open_client =
     Inr \<lparr>connected = True,
          db = [(''throttle:ip1'', \<lparr>payload = \<lparr>hits = 3, resetTime = 1000\<rparr>, ttl = 1\<rparr>)]\<rparr>"
proof -
  have h1: "store_ok MemoryStore_new" by (rule store_ok_new)
  have h2: "starts_window 0 (map_option (\<lambda>a. heap MemoryStore_new ! a)
      (MemoryStore_get ''ip1'' MemoryStore_new))"
    by (simp add: starts_window_def MemoryStore_get_def Map_has_def MemoryStore_new_def)
  have h3: "\<forall>t \<in> set [10, 1000::int]. t \<le> 0 + 1000" by simp
  have h4: "client_get open_client (redisKey ''ip1'') = Inr None"
    by (simp add: client_get_def open_client_def)
  have h5: "starts_window 0 None" by (simp add: starts_window_def)
  have h6: "(0::int) < 1000" by simp
  have h7: "\<forall>t \<in> set [10, 999::int]. t < 0 + 1000" by simp
  have m: "MemoryStore_increments [0, 10, 1000] ''ip1'' 1000 MemoryStore_new =
     \<lparr>store = [(''ip1'', 0)], heap = [\<lparr>hits = 3, resetTime = 1000\<rparr>]\<rparr>"
    by (simp add: MemoryStore_increment_def Map_get_def Map_set_def new_object_def
        MemoryStore_new_def)
  have r: "RedisStore_increments [0, 10, 999] ''ip1'' 1000 open_client =
     Inr \<lparr>connected = True,
          db = [(''throttle:ip1'', \<lparr>payload = \<lparr>hits = 3, resetTime = 1000\<rparr>, ttl = 1\<rparr>)]\<rparr>"
    by (simp add: RedisStore_increment_def write_record_def client_get_def client_setEx_def
        next_record_def Math_ceil_div_def redisKey_def open_client_def)
  note M = increments_without_overlap[of MemoryStore_new 0 "''ip1''" "[10, 1000]" 1000
      open_client None]
  note R = increments_without_overlap[of MemoryStore_new 0 "''ip1''" "[10, 999]" 1000
      open_client None]
  have "\<exists>a. MemoryStore_get ''ip1''
      (MemoryStore_increments (0 # [10, 1000]) ''ip1'' 1000 MemoryStore_new) = Some a \<and>
      heap (MemoryStore_increments (0 # [10, 1000]) ''ip1'' 1000 MemoryStore_new) ! a =
        \<lparr>hits = int (length (0 # [10, 1000::int])), resetTime = 0 + 1000\<rparr>"
    using M h1 h2 h3 by blast
  moreover have "\<exists>c'. RedisStore_increments (0 # [10, 999]) ''ip1'' 1000 open_client = Inr c' \<and>
      RedisStore_get ''ip1'' c' =
        Inr (Some \<lparr>hits = int (length (0 # [10, 999::int])), resetTime = 0 + 1000\<rparr>)"
    using R h4 h5 h6 h7 by blast
  ultimately show ?thesis
    using h1 h2 h4 h5 m r by simp
qed

text \<open>
  Against C1 as stated: two \<open>RedisStore\<close> calls for the same key in flight together.
  Both send \<open>GET\<close> before either sends \<open>SETEX\<close>, both see no record, both write
  \<open>hits = 1\<close>: after two calls the stored count is 1.
\<close>

theorem redis_lost_update:
  "run_schedule [(0, 0), (1, 0), (0, 0), (1, 0)]
      ([Called ''ip1'' 1000, Called ''ip1'' 1000], open_client) =
     ([Returned \<lparr>hits = 1, resetTime = 1000\<rparr>, Returned \<lparr>hits = 1, resetTime = 1000\<rparr>],
      \<lparr>connected = True,
       db = [(''throttle:ip1'', \<lparr>payload = \<lparr>hits = 1, resetTime = 1000\<rparr>, ttl = 1\<rparr>)]\<rparr>) \<and>
   RedisStore_get ''ip1''
     (snd (run_schedule [(0, 0), (1, 0), (0, 0), (1, 0)]
        ([Called ''ip1'' 1000, Called ''ip1'' 1000], open_client))) =
     Inr (Some \<lparr>hits = 1, resetTime = 1000\<rparr>)"
  by (simp add: RedisStore_get_def write_record_def client_get_def client_setEx_def
      next_record_def Math_ceil_div_def redisKey_def open_client_def)

subsection \<open>What the caller of increment holds\<close>

text \<open>
  C9 (as amended): \<open>MemoryStore.increment\<close> returns the reference that the map of the
  store holds, not a copy: \<open>get\<close> for the key returns the same reference, an assignment
  to the fields of the returned object is what \<open>get\<close> then observes, and the next
  \<open>increment\<close> for the key within the assigned window counts on from the assigned
  \<open>hits\<close>.
\<close>

theorem increment_returns_stored_reference:
  assumes "store_ok s"
  shows "(let (record, s1) = MemoryStore_increment now key w s;
              s2 = assign_fields record v s1
          in MemoryStore_get key s2 = Some record \<and> heap s2 ! record = v \<and>
             (t \<le> resetTime v \<longrightarrow>
                MemoryStore_increment t key w' s2 =
                  (record,
                   assign_fields record \<lparr>hits = hits v + 1, resetTime = resetTime v\<rparr> s2)))"
proof -
  let ?a = "fst (MemoryStore_increment now key w s)"
  let ?s1 = "snd (MemoryStore_increment now key w s)"
  let ?s2 = "assign_fields ?a v ?s1"
  have g1: "MemoryStore_get key ?s1 = Some ?a" by (rule get_after_increment)
  have v: "?a < length (heap ?s1)"
    by (rule store_ok_valid[OF store_ok_increment[OF assms] g1])
  have g2: "MemoryStore_get key ?s2 = Some ?a"
    using g1 by (simp add: MemoryStore_get_map_of assign_fields_def)
  have rd: "heap ?s2 ! ?a = v"
    using v by (simp add: assign_fields_def)
  have "MemoryStore_increment t key w' ?s2 =
      (?a, assign_fields ?a \<lparr>hits = hits v + 1, resetTime = resetTime v\<rparr> ?s2)"
    if "t \<le> resetTime v"
    using that by (simp add: increment_present[OF g2] rd) (simp add: assign_fields_def)
  then show ?thesis
    using g2 rd by (simp add: case_prod_unfold Let_def)
qed

text \<open>The caller sets \<open>hits\<close> of the returned record to 100; the next increment yields 101.\<close>

theorem increment_returns_stored_reference_witness:
  "store_ok MemoryStore_new \<and>
   MemoryStore_increment 0 ''ip1'' 1000 MemoryStore_new =
     (0, \<lparr>store = [(''ip1'', 0)], heap = [\<lparr>hits = 1, resetTime = 1000\<rparr>]\<rparr>) \<and>
   MemoryStore_get ''ip1''
     (assign_fields 0 \<lparr>hits = 100, resetTime = 1000\<rparr>
        \<lparr>store = [(''ip1'', 0)], heap = [\<lparr>hits = 1, resetTime = 1000\<rparr>]\<rparr>) = Some 0 \<and>
   MemoryStore_increment 5 ''ip1'' 1000
     (assign_fields 0 \<lparr>hits = 100, resetTime = 1000\<rparr>
        \<lparr>store = [(''ip1'', 0)], heap = [\<lparr>hits = 1, resetTime = 1000\<rparr>]\<rparr>) =
     (0, \<lparr>store = [(''ip1'', 0)], heap = [\<lparr>hits = 101, resetTime = 1000\<rparr>]\<rparr>)"
proof -
  have m: "MemoryStore_increment 0 ''ip1'' 1000 MemoryStore_new =
     (0, \<lparr>store = [(''ip1'', 0)], heap = [\<lparr>hits = 1, resetTime = 1000\<rparr>]\<rparr>)"
    by (simp add: MemoryStore_increment_def Map_get_def Map_set_def new_object_def
        MemoryStore_new_def)
  from increment_returns_stored_reference[OF store_ok_new,
      of 0 "''ip1''" 1000 "\<lparr>hits = 100, resetTime = 1000\<rparr>" 5 1000]
  show ?thesis
    using store_ok_new by (simp add: m assign_fields_def Let_def)
qed

text \<open>
  Against C9 as stated: after the first increment \<open>get\<close> observes \<open>hits = 1\<close>; the caller
  assigns through the record it was given, and \<open>get\<close> observes \<open>hits = 100\<close>, the following
  increment 101.
\<close>

theorem assignment_through_reference_observed:
  "MemoryStore_increment 0 ''ip1'' 1000 MemoryStore_new =
     (0, \<lparr>store = [(''ip1'', 0)], heap = [\<lparr>hits = 1, resetTime = 1000\<rparr>]\<rparr>) \<and>
   MemoryStore_get ''ip1'' \<lparr>store = [(''ip1'', 0)], heap = [\<lparr>hits = 1, resetTime = 1000\<rparr>]\<rparr> =
     Some 0 \<and>
   MemoryStore_get ''ip1''
     (assign_fields 0 \<lparr>hits = 100, resetTime = 1000\<rparr>
        \<lparr>store = [(''ip1'', 0)], heap = [\<lparr>hits = 1, resetTime = 1000\<rparr>]\<rparr>) = Some 0 \<and>
   heap (assign_fields 0 \<lparr>hits = 100, resetTime = 1000\<rparr>
        \<lparr>store = [(''ip1'', 0)], heap = [\<lparr>hits = 1, resetTime = 1000\<rparr>]\<rparr>) ! 0 =
     \<lparr>hits = 100, resetTime = 1000\<rparr> \<and>
   store_increment 5 ''ip1'' 1000 (MemoryStoreObj
     (assign_fields 0 \<lparr>hits = 100, resetTime = 1000\<rparr>
        \<lparr>store = [(''ip1'', 0)], heap = [\<lparr>hits = 1, resetTime = 1000\<rparr>]\<rparr>)) =
     Inr (Stored 0,
          MemoryStoreObj \<lparr>store = [(''ip1'', 0)], heap = [\<lparr>hits = 101, resetTime = 1000\<rparr>]\<rparr>) \<and>
   read_record (Stored 0)
     (MemoryStoreObj \<lparr>store = [(''ip1'', 0)], heap = [\<lparr>hits = 101, resetTime = 1000\<rparr>]\<rparr>) =
     Some \<lparr>hits = 101, resetTime = 1000\<rparr>"
  by (simp add: MemoryStore_increment_def MemoryStore_get_def Map_has_def Map_get_def
      Map_set_def new_object_def MemoryStore_new_def assign_fields_def)

subsection \<open>Reading an expired record\<close>

text \<open>
  C10: when the map holds a record for a key whose \<open>resetTime\<close> is earlier than now and
  the sweep has not removed it, \<open>get(key)\<close> returns that record, with its old \<open>hits\<close> and
  past \<open>resetTime\<close>, and not \<open>null\<close>. Expiry is applied by the sweep, which would delete
  the key at that time, and by \<open>increment\<close>, which would reset the record; \<open>get\<close> reads no
  clock.
\<close>

theorem get_returns_stale_record:
  assumes "store_ok s" and "Map_get (store s) key = Some record"
    and "now > resetTime (heap s ! record)"
  shows "MemoryStore_get key s = Some record \<and>
         MemoryStore_get key (MemoryStore_cleanup now s) = None \<and>
         MemoryStore_increment now key w s =
           (record, s\<lparr>heap := (heap s)[record := \<lparr>hits = 1, resetTime = now + w\<rparr>]\<rparr>)"
proof -
  have g: "MemoryStore_get key s = Some record"
    using assms(2) by (simp add: MemoryStore_get_map_of Map_get_def)
  have d: "distinct (map fst (store s))" using assms(1) by (simp add: store_ok_def)
  show ?thesis
    using assms(3) by (simp add: g cleanup_get[OF d] increment_present[OF g])
qed

text \<open>At time 5000 the record whose window ended at 1000 is still returned.\<close>

theorem get_returns_stale_record_witness:
  "store_ok demo_store \<and> Map_get (store demo_store) ''ip1'' = Some 0 \<and>
   5000 > resetTime (heap demo_store ! 0) \<and>
   MemoryStore_get ''ip1'' demo_store = Some 0 \<and>
   heap demo_store ! 0 = \<lparr>hits = 2, resetTime = 1000\<rparr>"
proof -
  have h2: "Map_get (store demo_store) ''ip1'' = Some 0"
    by (simp add: Map_get_def demo_store_def)
  have h3: "5000 > resetTime (heap demo_store ! 0)"
    by (simp add: demo_store_def)
  from get_returns_stale_record[OF store_ok_demo h2 h3] store_ok_demo h2 h3 show ?thesis
    by (simp add: demo_store_def)
qed

subsection \<open>The sweep\<close>

text \<open>
  C6: \<open>cleanup\<close> deletes a record if and only if its \<open>resetTime\<close> has passed at sweep
  time (\<open>now > resetTime\<close>): after the sweep \<open>get\<close> finds a key exactly when it was
  present with a record that is not expired, under the same reference, and no object is
  changed. In particular a record incremented just before the sweep is retained whenever
  the sweep time is still within its window.
\<close>

theorem cleanup_removes_exactly_expired:
  assumes "store_ok s"
  shows "MemoryStore_get key (MemoryStore_cleanup now s) =
           (case MemoryStore_get key s of
              None \<Rightarrow> None
            | Some record \<Rightarrow> if now > resetTime (heap s ! record) then None else Some record) \<and>
         heap (MemoryStore_cleanup now s) = heap s \<and>
         (let (record, s') = MemoryStore_increment t key' w s
          in now \<le> resetTime (heap s' ! record) \<longrightarrow>
               MemoryStore_get key' (MemoryStore_cleanup now s') = Some record \<and>
               heap (MemoryStore_cleanup now s') ! record = heap s' ! record)"
proof -
  have d: "distinct (map fst (store s))" using assms by (simp add: store_ok_def)
  let ?s' = "snd (MemoryStore_increment t key' w s)"
  have "store_ok ?s'" by (rule store_ok_increment[OF assms])
  then have d': "distinct (map fst (store ?s'))" by (simp add: store_ok_def)
  show ?thesis
    by (simp add: cleanup_get[OF d] cleanup_get[OF d'] case_prod_unfold get_after_increment)
qed

text \<open>
  A record whose window ends at 1000 survives the sweep at 1000, is removed by the sweep
  at 1001, and survives that sweep when it was incremented (and so reset) at 1001.
\<close>

theorem cleanup_removes_exactly_expired_witness:
  "store_ok demo_store \<and>
   MemoryStore_get ''ip1'' (MemoryStore_cleanup 1000 demo_store) = Some 0 \<and>
   MemoryStore_get ''ip1'' (MemoryStore_cleanup 1001 demo_store) = None \<and>
   MemoryStore_get ''ip1''
     (MemoryStore_cleanup 1001 (snd (MemoryStore_increment 1001 ''ip1'' 1000 demo_store))) = Some 0"
proof -
  have g: "MemoryStore_get ''ip1'' demo_store = Some 0"
    by (simp add: MemoryStore_get_def Map_has_def Map_get_def demo_store_def)
  have h: "heap demo_store ! 0 = \<lparr>hits = 2, resetTime = 1000\<rparr>"
    by (simp add: demo_store_def)
  have m: "MemoryStore_increment 1001 ''ip1'' 1000 demo_store =
     (0, \<lparr>store = [(''ip1'', 0)], heap = [\<lparr>hits = 1, resetTime = 2001\<rparr>]\<rparr>)"
    by (simp add: MemoryStore_increment_def Map_get_def demo_store_def)
  show ?thesis
    using cleanup_removes_exactly_expired[OF store_ok_demo, of "''ip1''" 1000 1001 "''ip1''" 1000]
      cleanup_removes_exactly_expired[OF store_ok_demo, of "''ip1''" 1001 1001 "''ip1''" 1000]
    by (simp add: g h m store_ok_demo)
qed

subsection \<open>Admission\<close>




text \<open>
  C8: when \<open>max \<le> 0\<close>, every request that reaches the comparison is rejected, whatever
  count the store holds for the key (stored counts are at least 1, and remain so); the
  middleware neither calls \<open>next()\<close> nor raises or forwards an error.
\<close>

theorem nonpositive_max_rejects:
  assumes "max_cfg config \<le> 0" and "hits_positive (store_cfg config)"
    and "\<not> skip config req" and "keyGenerator config req = Inr key"
    and "store_increment now key (windowMs config) (store_cfg config) = Inr (record, st)"
  shows "rejected (fst (throttle_middleware config now now2 req)) \<and>
         \<not> admitted (fst (throttle_middleware config now now2 req)) \<and>
         \<not> list_ex is_failure (fst (throttle_middleware config now now2 req)) \<and>
         hits_positive (store_cfg (snd (throttle_middleware config now now2 req)))"
proof -
  from store_increment_positive[OF assms(2) assms(5)] obtain seen where
    rd: "read_record record st = Some seen" and pos: "1 \<le> hits seen" "hits_positive st"
    by blast
  then have over: "hits seen > max_cfg config" using assms(1) by simp
  have mw: "throttle_middleware config now now2 req =
     (respond config now2 seen, config\<lparr>store_cfg := st\<rparr>)"
    by (rule middleware_result[OF assms(3) assms(4) assms(5) rd])
  show ?thesis
    unfolding mw fst_conv snd_conv
    using over pos(2) admitted_effects[of config now2 seen]
      rejected_effects[of config now2 seen] failure_effects[of config now2 seen]
    by simp
qed

text \<open>With \<open>max = 0\<close> the first request from an address is rejected.\<close>

theorem nonpositive_max_rejects_witness:
  "max_cfg zero_config \<le> 0 \<and> hits_positive (store_cfg zero_config) \<and>
   \<not> skip zero_config demo_request \<and> keyGenerator zero_config demo_request = Inr ''ip1'' \<and>
   store_increment 0 ''ip1'' (windowMs zero_config) (store_cfg zero_config) =
      Inr (Stored 0,
           MemoryStoreObj \<lparr>store = [(''ip1'', 0)], heap = [\<lparr>hits = 1, resetTime = 1000\<rparr>]\<rparr>) \<and>
   rejected (fst (throttle_middleware zero_config 0 0 demo_request)) \<and>
   \<not> admitted (fst (throttle_middleware zero_config 0 0 demo_request))"
proof -
  have h1: "max_cfg zero_config \<le> 0" by (simp add: zero_config_eval)
  have h2: "hits_positive (store_cfg zero_config)"
    by (simp add: zero_config_eval store_ok_new) (simp add: MemoryStore_new_def)
  have h3: "\<not> skip zero_config demo_request"
    and h4: "keyGenerator zero_config demo_request = Inr ''ip1''"
    by (simp_all add: zero_config_eval demo_request_def)
  have h5: "store_increment 0 ''ip1'' (windowMs zero_config) (store_cfg zero_config) =
      Inr (Stored 0,
           MemoryStoreObj \<lparr>store = [(''ip1'', 0)], heap = [\<lparr>hits = 1, resetTime = 1000\<rparr>]\<rparr>)"
    using first_increment_new[of 0 "''ip1''" 1000] by (simp add: zero_config_eval)
  from nonpositive_max_rejects[OF h1 h2 h3 h4 h5, of 0] h1 h2 h3 h4 h5 show ?thesis
    by simp
qed

subsection \<open>The Retry-After header\<close>

text \<open>
  C5 (as amended): for the record as the middleware reads it when it is resumed after
  \<open>await store.increment\<close>, the header \<open>Retry-After\<close> is set exactly when headers are
  enabled and the \<open>hits\<close> read is over the limit, never on an admitted request, and its
  value is \<open>ceil((resetTime - now2) / 1000)\<close> for the \<open>resetTime\<close> read and the clock
  reading \<open>now2\<close> taken when the header is set. No floor is applied: the value is at
  least 1 exactly when \<open>now2\<close> is before \<open>resetTime\<close>, and negative exactly when \<open>now2\<close>
  is a second or more past it.
\<close>

theorem retry_after_header:
  assumes "read_record h st = Some seen"
  shows "mw_step config now2 (Awaiting h) st = (Completed (respond config now2 seen), st) \<and>
         header ''Retry-After'' (respond config now2 seen) =
           (if headers config \<and> hits seen > max_cfg config
            then Some (Math_ceil_div (resetTime seen - now2) 1000) else None) \<and>
         (admitted (respond config now2 seen) \<longrightarrow>
            header ''Retry-After'' (respond config now2 seen) = None) \<and>
         (1 \<le> Math_ceil_div (resetTime seen - now2) 1000 \<longleftrightarrow> now2 < resetTime seen) \<and>
         (Math_ceil_div (resetTime seen - now2) 1000 < 0 \<longleftrightarrow> resetTime seen + 1000 \<le> now2)"
proof -
  have "mw_step config now2 (Awaiting h) st = (Completed (respond config now2 seen), st)"
    by (rule resume_step[OF assms])
  moreover have "admitted (respond config now2 seen) \<longleftrightarrow> hits seen \<le> max_cfg config"
    by (rule admitted_effects)
  moreover have "header ''Retry-After'' (respond config now2 seen) =
           (if headers config \<and> hits seen > max_cfg config
            then Some (Math_ceil_div (resetTime seen - now2) 1000) else None)"
    by (rule retry_after_effects)
  moreover have "1 \<le> Math_ceil_div (resetTime seen - now2) 1000 \<longleftrightarrow>
      now2 < resetTime seen"
    by (simp add: Math_ceil_div_ge1)
  moreover have "Math_ceil_div (resetTime seen - now2) 1000 < 0 \<longleftrightarrow>
      resetTime seen + 1000 \<le> now2"
    using Math_ceil_div_neg[of "resetTime seen - now2"] by linarith
  ultimately show ?thesis by simp
qed

text \<open>With \<open>max = 0\<close>, a request at 0 whose header is set at 5 gets \<open>Retry-After: 1\<close>.\<close>

theorem retry_after_header_witness:
  "read_record (Stored 0)
     (MemoryStoreObj \<lparr>store = [(''ip1'', 0)], heap = [\<lparr>hits = 1, resetTime = 1000\<rparr>]\<rparr>) =
     Some \<lparr>hits = 1, resetTime = 1000\<rparr> \<and>
   max_cfg zero_config = 0 \<and>
   header ''Retry-After'' (respond zero_config 5 \<lparr>hits = 1, resetTime = 1000\<rparr>) = Some 1 \<and>
   header ''Retry-After'' (fst (throttle_middleware zero_config 0 5 demo_request)) = Some 1"
proof -
  let ?s1 = "\<lparr>store = [(''ip1'', 0)], heap = [\<lparr>hits = 1, resetTime = 1000\<rparr>]\<rparr>"
  have h: "read_record (Stored 0) (MemoryStoreObj ?s1) = Some \<lparr>hits = 1, resetTime = 1000\<rparr>"
    by simp
  have h1: "\<not> skip zero_config demo_request"
    and h2: "keyGenerator zero_config demo_request = Inr ''ip1''"
    by (simp_all add: zero_config_eval demo_request_def)
  have h3: "store_increment 0 ''ip1'' (windowMs zero_config) (store_cfg zero_config) =
      Inr (Stored 0, MemoryStoreObj ?s1)"
    using first_increment_new[of 0 "''ip1''" 1000] by (simp add: zero_config_eval)
  have mw: "fst (throttle_middleware zero_config 0 5 demo_request) =
      respond zero_config 5 \<lparr>hits = 1, resetTime = 1000\<rparr>"
    by (simp add: middleware_result[OF h1 h2 h3 h])
  from retry_after_header[OF h, of zero_config 5] show ?thesis
    using h by (simp add: mw zero_config_eval Math_ceil_div_def)
qed

text \<open>
  Against C5 as stated, with \<open>windowMs = 1000\<close> and \<open>max = 2\<close>, requests served one at a
  time: a third request that arrives at the last instant of the window (1000) is counted
  in it, rejected, and gets \<open>Retry-After: 0\<close>; a third request counted at 900 whose header
  is set at 2000 gets \<open>Retry-After: -1\<close>.
\<close>

theorem retry_after_zero_and_negative:
  "serve scenario_config [(0, 0, demo_request), (1, 1, demo_request), (1000, 1000, demo_request)] ! 2 =
     [SetHeader ''X-RateLimit-Limit'' 2, SetHeader ''X-RateLimit-Remaining'' 0,
      SetHeader ''X-RateLimit-Reset'' 1, SetHeader ''Retry-After'' 0,
      StatusJson 429 False ''Too many requests, please try again later.''] \<and>
   serve scenario_config [(0, 0, demo_request), (1, 1, demo_request), (900, 2000, demo_request)] ! 2 =
     [SetHeader ''X-RateLimit-Limit'' 2, SetHeader ''X-RateLimit-Remaining'' 0,
      SetHeader ''X-RateLimit-Reset'' 1, SetHeader ''Retry-After'' (- 1),
      StatusJson 429 False ''Too many requests, please try again later.'']"
  by code_simp

subsection \<open>Failures of the store and of the key generator\<close>

text \<open>
  C4 (as amended): when \<open>store.increment\<close> fails, the middleware catches the error and
  passes it to \<open>next(err)\<close>, and does nothing else: it sets no header, writes no response
  and does not call \<open>next()\<close>. This holds for every configuration, whatever further
  properties the options carried; no option selects a fail-open policy.
\<close>

theorem store_failure_forwarded:
  assumes "\<not> skip config req" and "keyGenerator config req = Inr key"
    and "store_increment now key (windowMs config) (store_cfg config) = Inl err"
  shows "throttle_middleware config now now2 req = ([NextErr err], config)"
  using assms by (simp add: throttle_middleware_def)

text \<open>A \<open>RedisStore\<close> whose connection is closed.\<close>

theorem store_failure_forwarded_witness:
  "\<not> skip fail_open_config demo_request \<and>
   keyGenerator fail_open_config demo_request = Inr ''ip1'' \<and>
   store_increment 0 ''ip1'' (windowMs fail_open_config) (store_cfg fail_open_config) =
     Inl ConnectionError \<and>
   throttle_middleware fail_open_config 0 0 demo_request =
     ([NextErr ConnectionError], fail_open_config)"
proof -
  have h1: "\<not> skip fail_open_config demo_request"
    and h2: "keyGenerator fail_open_config demo_request = Inr ''ip1''"
    by (simp_all add: fail_open_config_eval demo_request_def)
  have h3: "store_increment 0 ''ip1'' (windowMs fail_open_config) (store_cfg fail_open_config) =
     Inl ConnectionError"
    by (simp add: fail_open_config_eval RedisStore_increment_def client_get_def closed_client_def)
  from store_failure_forwarded[OF h1 h2 h3, of 0] h1 h2 h3 show ?thesis
    by simp
qed

text \<open>
  Against C4 as stated: with \<open>failOpenOnStoreError: true\<close> among the options and a store
  that fails, the request is not passed through, the error goes to \<open>next(err)\<close>; and an
  exception of \<open>keyGenerator\<close>, which is called before the \<open>try\<close> block, leaves the
  middleware uncaught.
\<close>

theorem fail_open_not_applied:
  "config.more fail_open_config = fail_open_options.fields True \<and>
   fst (throttle_middleware fail_open_config 0 0 demo_request) = [NextErr ConnectionError] \<and>
   \<not> admitted (fst (throttle_middleware fail_open_config 0 0 demo_request)) \<and>
   fst (throttle_middleware throwing_config 0 0 demo_request) = [Throw TypeError]"
  by (simp add: throttle_middleware_def fail_open_config_eval demo_request_def
      RedisStore_increment_def client_get_def closed_client_def admitted_def
      throwing_config_def throttle_def no_options_def or_default_def throwing_keyGenerator_def)

subsection \<open>Construction\<close>




end
